theory Spec2Isabelle
  imports Main
begin

section \<open>The persistence layer as the soft-delete mixin uses it\<close>

text \<open>
  The source (\<^verbatim>\<open>apps/common/models.py\<close>) is three classes layered on an object-relational
  mapper: \<^verbatim>\<open>SoftDeleteQuerySet\<close>, \<^verbatim>\<open>SoftDeleteManager\<close> and the abstract model
  \<^verbatim>\<open>SoftDeleteModel\<close>. The mapper itself is an external dependency. This section fixes
  the part of it that the three classes call: stored records, querysets built from
  lookups, the bulk \<^verbatim>\<open>update\<close>, \<^verbatim>\<open>save\<close>, the clock \<^verbatim>\<open>now()\<close> and the relationship
  metadata \<^verbatim>\<open>_meta.related_objects\<close>.
\<close>

type_synonym model_name = string
type_synonym timestamp = nat

text \<open>
  A stored record, and equally the in-memory instance \<^verbatim>\<open>self\<close> of a model method. The two
  flag columns are the fields declared by \<^verbatim>\<open>SoftDeleteModel\<close>; \<open>fks\<close> holds the foreign-key
  columns as (field name, referenced primary key).
\<close>

record entity =
  model :: model_name
  pk :: nat
  is_deleted :: bool
  deleted_at :: "timestamp option"
  fks :: "(string \<times> nat) list"

text \<open>
  \<^verbatim>\<open>is_deleted = models.BooleanField(default=False)\<close> and
  \<^verbatim>\<open>deleted_at = models.DateTimeField(blank=True, null=True)\<close>: a record created without
  naming the two fields has them at these defaults.
\<close>

definition new_entity :: "model_name \<Rightarrow> nat \<Rightarrow> (string \<times> nat) list \<Rightarrow> entity" where
  "new_entity m k fs = \<lparr>model = m, pk = k, is_deleted = False, deleted_at = None, fks = fs\<rparr>"

text \<open>
  A queryset is lazy: a model and the lookups accumulated by \<^verbatim>\<open>filter\<close>. Only two kinds
  of lookup occur: equality on \<^verbatim>\<open>is_deleted\<close> (written by the source) and equality on a
  foreign key (added by a reverse accessor).
\<close>

datatype lookup = Is_deleted_eq bool | Fk_eq string nat

record queryset =
  qs_model :: model_name
  qs_where :: "lookup list"

fun lookup_holds :: "lookup \<Rightarrow> entity \<Rightarrow> bool" where
  "lookup_holds (Is_deleted_eq b) r = (is_deleted r = b)"
| "lookup_holds (Fk_eq f k) r = (map_of (fks r) f = Some k)"

definition matches :: "queryset \<Rightarrow> entity \<Rightarrow> bool" where
  "matches qs r = (model r = qs_model qs \<and> list_all (\<lambda>l. lookup_holds l r) (qs_where qs))"

definition rows :: "entity list \<Rightarrow> queryset \<Rightarrow> entity list" where
  "rows d qs = filter (matches qs) d"

definition qs_filter :: "lookup \<Rightarrow> queryset \<Rightarrow> queryset" where
  "qs_filter l qs = qs\<lparr>qs_where := qs_where qs @ [l]\<rparr>"

definition same_record :: "entity \<Rightarrow> entity \<Rightarrow> bool" where
  "same_record a r = (model r = model a \<and> pk r = pk a)"

text \<open>
  Every write that reaches the store is logged, so that ``no write is issued'' is a
  statement about the log.
\<close>

datatype write_op =
    Save model_name nat
  | Update queryset bool "timestamp option"
  | Physical_delete model_name nat

text \<open>
  The world outside the method under call: the stored records, how many times \<^verbatim>\<open>now()\<close>
  has been called, and the write log. The clock is a parameter \<open>clk\<close> of every operation
  that reads it: call number \<open>i\<close> of \<^verbatim>\<open>now()\<close> returns \<open>clk i\<close>.
\<close>

record world =
  db :: "entity list"
  tick :: nat
  writes :: "write_op list"

definition now :: "(nat \<Rightarrow> timestamp) \<Rightarrow> world \<Rightarrow> timestamp \<times> world" where
  "now clk w = (clk (tick w), w\<lparr>tick := Suc (tick w)\<rparr>)"

text \<open>
  \<^verbatim>\<open>QuerySet.update(is_deleted=b, deleted_at=d)\<close>: one statement that sets the two
  columns on every record the queryset matches and returns how many it matched.
\<close>

definition set_flags :: "bool \<Rightarrow> timestamp option \<Rightarrow> entity \<Rightarrow> entity" where
  "set_flags b d r = r\<lparr>is_deleted := b, deleted_at := d\<rparr>"

definition qs_update :: "queryset \<Rightarrow> bool \<Rightarrow> timestamp option \<Rightarrow> world \<Rightarrow> nat \<times> world" where
  "qs_update qs b d w =
     (length (rows (db w) qs),
      w\<lparr>db := map (\<lambda>r. if matches qs r then set_flags b d r else r) (db w),
        writes := writes w @ [Update qs b d]\<rparr>)"

text \<open>
  \<^verbatim>\<open>Model.save()\<close> of an instance that has a primary key: the stored record with that key
  is overwritten with the instance's fields, and the instance is inserted when no such
  record is stored.
\<close>

definition save :: "entity \<Rightarrow> world \<Rightarrow> world" where
  "save self w =
     w\<lparr>db := (if list_ex (same_record self) (db w)
              then map (\<lambda>r. if same_record self r then self else r) (db w)
              else db w @ [self]),
       writes := writes w @ [Save (model self) (pk self)]\<rparr>"

text \<open>
  Modelled from the spec: the persistence layer's physical (irrecoverable) delete of a
  single record, which the source reaches through \<^verbatim>\<open>super().delete()\<close> and whose code is
  the mapper's, not the repository's. The spec's words are ``delegates to the persistence
  layer's physical delete for this single record only'', ``whatever the underlying
  physical-delete behavior is, e.g. referential-action enforcement by the storage layer,
  applies unchanged'' and ``all failures are whatever the persistence layer raises''. So
  the layer's treatment of the other records is a parameter \<open>enforce\<close>: given the record
  to remove and the stored records, it answers with the stored records as its
  referential actions leave them (dependents removed, detached or kept), or with \<open>None\<close>
  when it refuses the delete and raises. On success the record itself is gone and one
  physical delete is logged; on refusal the exception reaches the caller and nothing is
  written.
\<close>

type_synonym referential_actions = "entity \<Rightarrow> entity list \<Rightarrow> entity list option"

definition base_model_delete :: "referential_actions \<Rightarrow> entity \<Rightarrow> world \<Rightarrow> world option" where
  "base_model_delete enforce self w =
     (case enforce self (db w) of
        None \<Rightarrow> None
      | Some d \<Rightarrow>
          Some (w\<lparr>db := filter (\<lambda>r. \<not> same_record self r) d,
                  writes := writes w @ [Physical_delete (model self) (pk self)]\<rparr>))"

section \<open>SoftDeleteQuerySet\<close>

text \<open>
  \<^verbatim>\<open>self.update(is_deleted=True, deleted_at=now())\<close>: the argument \<^verbatim>\<open>now()\<close> is evaluated
  first, then the bulk update runs with that one timestamp.
\<close>

definition qs_soft_delete :: "(nat \<Rightarrow> timestamp) \<Rightarrow> queryset \<Rightarrow> world \<Rightarrow> nat \<times> world" where
  "qs_soft_delete clk qs w = (case now clk w of (t, w1) \<Rightarrow> qs_update qs True (Some t) w1)"

definition qs_delete :: "(nat \<Rightarrow> timestamp) \<Rightarrow> queryset \<Rightarrow> world \<Rightarrow> nat \<times> world" where
  "qs_delete clk qs w = qs_soft_delete clk qs w"

definition qs_restore :: "queryset \<Rightarrow> world \<Rightarrow> nat \<times> world" where
  "qs_restore qs w = qs_update qs False None w"

definition deleted :: "queryset \<Rightarrow> queryset" where
  "deleted qs = qs_filter (Is_deleted_eq True) qs"

definition active :: "queryset \<Rightarrow> queryset" where
  "active qs = qs_filter (Is_deleted_eq False) qs"

section \<open>SoftDeleteManager\<close>

text \<open>
  The model declares two managers, \<^verbatim>\<open>objects_default = Manager()\<close> and
  \<^verbatim>\<open>objects = SoftDeleteManager()\<close>. \<open>soft_queryset m\<close> is the expression
  \<^verbatim>\<open>SoftDeleteQuerySet(self.model, using=self._db)\<close>. A plain \<^verbatim>\<open>Manager\<close> keeps the
  mapper's \<^verbatim>\<open>get_queryset\<close>, the unfiltered queryset of the model; \<^verbatim>\<open>SoftDeleteManager\<close>
  overrides it. \<^verbatim>\<open>all()\<close> is not overridden by the source and is the mapper's: it returns
  \<^verbatim>\<open>self.get_queryset()\<close>.
\<close>

datatype manager_class = Manager | SoftDeleteManager

definition soft_queryset :: "model_name \<Rightarrow> queryset" where
  "soft_queryset m = \<lparr>qs_model = m, qs_where = []\<rparr>"

fun get_queryset :: "manager_class \<Rightarrow> model_name \<Rightarrow> queryset" where
  "get_queryset SoftDeleteManager m = active (soft_queryset m)"
| "get_queryset Manager m = soft_queryset m"

definition get_all :: "model_name \<Rightarrow> queryset" where
  "get_all m = soft_queryset m"

definition deleted_only :: "model_name \<Rightarrow> queryset" where
  "deleted_only m = deleted (soft_queryset m)"

definition manager_all :: "manager_class \<Rightarrow> model_name \<Rightarrow> queryset" where
  "manager_all c m = get_queryset c m"

text \<open>\<^verbatim>\<open>hasattr(manager, "deleted_only")\<close>: only \<^verbatim>\<open>SoftDeleteManager\<close> defines the method.\<close>

fun has_deleted_only :: "manager_class \<Rightarrow> bool" where
  "has_deleted_only SoftDeleteManager = True"
| "has_deleted_only Manager = False"

section \<open>Relationship metadata and reverse accessors\<close>

datatype on_delete_policy = CASCADE | PROTECT | RESTRICT | SET_NULL | SET_DEFAULT | DO_NOTHING

datatype relation_kind = ManyToOneRel | OneToOneRel

text \<open>
  One element of \<^verbatim>\<open>self._meta.related_objects\<close>: a relationship declared on
  \<open>related_model\<close> by its foreign-key field \<open>field_name\<close>, pointing at the model of
  \<^verbatim>\<open>self\<close>.
\<close>

record related_object =
  on_delete :: on_delete_policy
  related_model :: model_name
  field_name :: string
  kind :: relation_kind

text \<open>
  What the mapper knows about the declared models: the reverse relationships of each,
  the class of each model's default manager (the class a reverse accessor is built
  from), and which models inherit from \<^verbatim>\<open>SoftDeleteModel\<close>. The default manager of a
  model is the first manager declared for it unless the model names another one; a model
  that only inherits the two managers of \<^verbatim>\<open>SoftDeleteModel\<close> therefore has
  \<^verbatim>\<open>objects_default\<close>, a plain \<^verbatim>\<open>Manager\<close>, and a model that declares
  \<^verbatim>\<open>objects = SoftDeleteManager()\<close> itself, or names \<^verbatim>\<open>objects\<close> as its default, has a
  \<^verbatim>\<open>SoftDeleteManager\<close>.
\<close>

record orm_meta =
  related_objects :: "model_name \<Rightarrow> related_object list"
  default_manager :: "model_name \<Rightarrow> manager_class"
  is_soft_delete_model :: "model_name \<Rightarrow> bool"

text \<open>
  The manager behind a reverse foreign-key accessor: a manager of the related model's
  default manager class whose \<^verbatim>\<open>get_queryset\<close> is that class's, narrowed to the records
  that reference the instance.
\<close>

record related_manager =
  rm_class :: manager_class
  rm_model :: model_name
  rm_field :: string
  rm_instance :: nat

definition rm_all :: "related_manager \<Rightarrow> queryset" where
  "rm_all rm = qs_filter (Fk_eq (rm_field rm) (rm_instance rm)) (manager_all (rm_class rm) (rm_model rm))"

definition rm_deleted_only :: "related_manager \<Rightarrow> queryset" where
  "rm_deleted_only rm = deleted_only (rm_model rm)"

text \<open>
  \<^verbatim>\<open>getattr(self, related_name, None)\<close>. For a reverse foreign key the attribute is a
  related manager. For a reverse one-to-one it is the related record itself, and the
  lookup fails with an attribute error, hence \<^verbatim>\<open>None\<close>, when no record references the
  instance.
\<close>

datatype attr = Attr_none | Attr_object entity | Attr_manager related_manager

definition references :: "entity \<Rightarrow> related_object \<Rightarrow> entity \<Rightarrow> bool" where
  "references self rel r =
     (model r = related_model rel \<and> map_of (fks r) (field_name rel) = Some (pk self))"

definition getattr_related :: "orm_meta \<Rightarrow> entity list \<Rightarrow> entity \<Rightarrow> related_object \<Rightarrow> attr" where
  "getattr_related meta d self rel =
     (case kind rel of
        ManyToOneRel \<Rightarrow>
          Attr_manager \<lparr>rm_class = default_manager meta (related_model rel),
                        rm_model = related_model rel,
                        rm_field = field_name rel,
                        rm_instance = pk self\<rparr>
      | OneToOneRel \<Rightarrow>
          (case filter (references self rel) d of
             [] \<Rightarrow> Attr_none
           | r # _ \<Rightarrow> Attr_object r))"

section \<open>SoftDeleteModel\<close>

text \<open>
  One turn of the loop of \<^verbatim>\<open>_soft_delete\<close>. The guards are the source's, in its order:
  the policy is \<^verbatim>\<open>CASCADE\<close>; the attribute is truthy and has \<^verbatim>\<open>all\<close> (a manager has, a
  record has not); the model of \<^verbatim>\<open>related_manager.all()\<close> is a soft-delete model. Then
  \<^verbatim>\<open>related_manager.all().update(is_deleted=True, deleted_at=now())\<close>.
\<close>

definition cascade_delete_step ::
  "(nat \<Rightarrow> timestamp) \<Rightarrow> orm_meta \<Rightarrow> entity \<Rightarrow> related_object \<Rightarrow> world \<Rightarrow> world" where
  "cascade_delete_step clk meta self rel w =
     (if on_delete rel = CASCADE then
        (case getattr_related meta (db w) self rel of
           Attr_none \<Rightarrow> w
         | Attr_object _ \<Rightarrow> w
         | Attr_manager rm \<Rightarrow>
             if is_soft_delete_model meta (qs_model (rm_all rm))
             then (case now clk w of (t, w1) \<Rightarrow> snd (qs_update (rm_all rm) True (Some t) w1))
             else w)
      else w)"

fun cascade_delete ::
  "(nat \<Rightarrow> timestamp) \<Rightarrow> orm_meta \<Rightarrow> entity \<Rightarrow> related_object list \<Rightarrow> world \<Rightarrow> world" where
  "cascade_delete clk meta self [] w = w"
| "cascade_delete clk meta self (rel # rels) w =
     cascade_delete clk meta self rels (cascade_delete_step clk meta self rel w)"

definition model_soft_delete ::
  "(nat \<Rightarrow> timestamp) \<Rightarrow> orm_meta \<Rightarrow> entity \<Rightarrow> world \<Rightarrow> entity \<times> world" where
  "model_soft_delete clk meta self w =
     (if is_deleted self then (self, w)
      else (case now clk w of (t, w1) \<Rightarrow>
              (set_flags True (Some t) self,
               cascade_delete clk meta (set_flags True (Some t) self)
                 (related_objects meta (model self))
                 (save (set_flags True (Some t) self) w1))))"

definition model_delete ::
  "(nat \<Rightarrow> timestamp) \<Rightarrow> orm_meta \<Rightarrow> entity \<Rightarrow> world \<Rightarrow> entity \<times> world" where
  "model_delete clk meta self w = model_soft_delete clk meta self w"

text \<open>
  One turn of the loop of \<^verbatim>\<open>restore\<close>. The attribute must be truthy and have
  \<^verbatim>\<open>deleted_only\<close>; the model tested is that of \<^verbatim>\<open>related_manager.deleted_only()\<close>; the
  queryset updated is \<^verbatim>\<open>related_manager.all()\<close>.
\<close>

definition cascade_restore_step :: "orm_meta \<Rightarrow> entity \<Rightarrow> related_object \<Rightarrow> world \<Rightarrow> world" where
  "cascade_restore_step meta self rel w =
     (if on_delete rel = CASCADE then
        (case getattr_related meta (db w) self rel of
           Attr_none \<Rightarrow> w
         | Attr_object _ \<Rightarrow> w
         | Attr_manager rm \<Rightarrow>
             if has_deleted_only (rm_class rm) then
               (if is_soft_delete_model meta (qs_model (rm_deleted_only rm))
                then snd (qs_update (rm_all rm) False None w)
                else w)
             else w)
      else w)"

fun cascade_restore :: "orm_meta \<Rightarrow> entity \<Rightarrow> related_object list \<Rightarrow> world \<Rightarrow> world" where
  "cascade_restore meta self [] w = w"
| "cascade_restore meta self (rel # rels) w =
     cascade_restore meta self rels (cascade_restore_step meta self rel w)"

definition model_restore :: "orm_meta \<Rightarrow> entity \<Rightarrow> world \<Rightarrow> entity \<times> world" where
  "model_restore meta self w =
     (if \<not> is_deleted self then (self, w)
      else (set_flags False None self,
            cascade_restore meta (set_flags False None self)
              (related_objects meta (model self))
              (save (set_flags False None self) w)))"

text \<open>\<^verbatim>\<open>hard_delete\<close> is \<^verbatim>\<open>return super().delete()\<close> and nothing else.\<close>

definition model_hard_delete :: "referential_actions \<Rightarrow> entity \<Rightarrow> world \<Rightarrow> world option" where
  "model_hard_delete enforce self w = base_model_delete enforce self w"

section \<open>Notions the properties are stated with\<close>

text \<open>
  A relationship on which the loops of \<^verbatim>\<open>_soft_delete\<close> and \<^verbatim>\<open>restore\<close> can act: the
  policy is \<^verbatim>\<open>CASCADE\<close>, the reverse accessor is a related manager (a reverse foreign
  key), and the related model inherits from \<^verbatim>\<open>SoftDeleteModel\<close>.
\<close>

definition cascades :: "orm_meta \<Rightarrow> related_object \<Rightarrow> bool" where
  "cascades meta rel =
     (on_delete rel = CASCADE \<and> kind rel = ManyToOneRel \<and>
      is_soft_delete_model meta (related_model rel))"

text \<open>
  The records that \<^verbatim>\<open>related_manager.all()\<close> yields when the accessor is built from
  manager class \<open>c\<close>: the records that reference the instance, all of them for a plain
  \<^verbatim>\<open>Manager\<close>, the active ones for a \<^verbatim>\<open>SoftDeleteManager\<close>.
\<close>

definition reached :: "manager_class \<Rightarrow> entity \<Rightarrow> related_object \<Rightarrow> entity \<Rightarrow> bool" where
  "reached c self rel r = (references self rel r \<and> (c = Manager \<or> \<not> is_deleted r))"

text \<open>The invariant of the two flag fields, for one record and for the stored records of
  the models that have the capability.\<close>

definition inv_row :: "entity \<Rightarrow> bool" where
  "inv_row r = ((is_deleted r = False) = (deleted_at r = None))"

definition inv_db :: "orm_meta \<Rightarrow> entity list \<Rightarrow> bool" where
  "inv_db meta d = list_all (\<lambda>r. is_soft_delete_model meta (model r) \<longrightarrow> inv_row r) d"

text \<open>
  A record flagged as deleted whose \<open>deleted_at\<close> is the answer of one of the calls of
  \<^verbatim>\<open>now()\<close> numbered \<open>lo\<close> up to, not including, \<open>hi\<close>.
\<close>

definition stamped :: "(nat \<Rightarrow> timestamp) \<Rightarrow> nat \<Rightarrow> nat \<Rightarrow> entity \<Rightarrow> bool" where
  "stamped clk lo hi r = (is_deleted r \<and> list_ex (\<lambda>j. deleted_at r = Some (clk j)) [lo..<hi])"

section \<open>A concrete schema\<close>

text \<open>
  Authors, their books (reverse foreign key \<open>author\<close>), their profile (reverse one-to-one
  \<open>owner\<close>) and the chapters of a book (reverse foreign key \<open>book\<close>), all soft-delete
  models and all relationships \<^verbatim>\<open>CASCADE\<close>. The parameter is the class of the default
  manager of every model: \<^verbatim>\<open>Manager\<close> when a model only inherits the two managers of
  \<^verbatim>\<open>SoftDeleteModel\<close> (\<^verbatim>\<open>objects_default\<close> is declared first), \<^verbatim>\<open>SoftDeleteManager\<close> when
  a model makes \<^verbatim>\<open>objects\<close> its default.
\<close>

definition clock :: "nat \<Rightarrow> timestamp" where
  "clock i = 100 + i"

definition book_rel :: related_object where
  "book_rel = \<lparr>on_delete = CASCADE, related_model = ''Book'', field_name = ''author'',
               kind = ManyToOneRel\<rparr>"

definition profile_rel :: related_object where
  "profile_rel = \<lparr>on_delete = CASCADE, related_model = ''Profile'', field_name = ''owner'',
                  kind = OneToOneRel\<rparr>"

definition chapter_rel :: related_object where
  "chapter_rel = \<lparr>on_delete = CASCADE, related_model = ''Chapter'', field_name = ''book'',
                  kind = ManyToOneRel\<rparr>"

definition library_meta :: "manager_class \<Rightarrow> orm_meta" where
  "library_meta c =
     \<lparr>related_objects = (\<lambda>m. if m = ''Author'' then [book_rel, profile_rel]
                              else if m = ''Book'' then [chapter_rel] else []),
      default_manager = (\<lambda>m. c),
      is_soft_delete_model = (\<lambda>m. True)\<rparr>"

definition author :: entity where
  "author = \<lparr>model = ''Author'', pk = 1, is_deleted = False, deleted_at = None, fks = []\<rparr>"

definition library_db :: "entity list" where
  "library_db =
     [author,
      \<lparr>model = ''Book'', pk = 1, is_deleted = False, deleted_at = None, fks = [(''author'', 1)]\<rparr>,
      \<lparr>model = ''Book'', pk = 2, is_deleted = True, deleted_at = Some 5, fks = [(''author'', 1)]\<rparr>,
      \<lparr>model = ''Book'', pk = 3, is_deleted = False, deleted_at = None, fks = [(''author'', 2)]\<rparr>,
      \<lparr>model = ''Profile'', pk = 1, is_deleted = False, deleted_at = None, fks = [(''owner'', 1)]\<rparr>,
      \<lparr>model = ''Chapter'', pk = 1, is_deleted = False, deleted_at = None, fks = [(''book'', 1)]\<rparr>]"

definition library :: world where
  "library = \<lparr>db = library_db, tick = 0, writes = []\<rparr>"

text \<open>
  Referential actions for the library, where every relationship is \<^verbatim>\<open>CASCADE\<close> and the
  schema is two levels deep: removing a record removes the records that reference it
  and the records that reference those.
\<close>

definition dependents :: "orm_meta \<Rightarrow> entity list \<Rightarrow> entity list \<Rightarrow> entity list" where
  "dependents meta seen d =
     filter (\<lambda>r. list_ex (\<lambda>s. list_ex (\<lambda>rel. on_delete rel = CASCADE \<and> references s rel r)
                               (related_objects meta (model s))) seen) d"

definition library_cascade :: referential_actions where
  "library_cascade self d =
     Some (filter (\<lambda>r. \<not> List.member
                          (dependents (library_meta Manager) [self] d @
                           dependents (library_meta Manager)
                             (dependents (library_meta Manager) [self] d) d) r) d)"

section \<open>Basic facts\<close>

lemma set_flags_simps:
  "model (set_flags b d r) = model r" "pk (set_flags b d r) = pk r"
  "fks (set_flags b d r) = fks r" "is_deleted (set_flags b d r) = b"
  "deleted_at (set_flags b d r) = d"
  by (simp_all add: set_flags_def)

lemma matches_rm_all:
  "matches (rm_all \<lparr>rm_class = c, rm_model = related_model rel, rm_field = field_name rel,
                     rm_instance = pk self\<rparr>) r = reached c self rel r"
  by (cases c) (auto simp: rm_all_def manager_all_def qs_filter_def soft_queryset_def active_def
      matches_def reached_def references_def)

lemma qs_model_rm_all: "qs_model (rm_all rm) = rm_model rm"
  by (cases "rm_class rm") (simp_all add: rm_all_def manager_all_def qs_filter_def soft_queryset_def active_def)

lemma qs_model_rm_deleted_only: "qs_model (rm_deleted_only rm) = rm_model rm"
  by (simp add: rm_deleted_only_def deleted_only_def deleted_def qs_filter_def soft_queryset_def)

lemma db_qs_update:
  "db (snd (qs_update qs b d w)) = map (\<lambda>r. if matches qs r then set_flags b d r else r) (db w)"
  "tick (snd (qs_update qs b d w)) = tick w"
  "writes (snd (qs_update qs b d w)) = writes w @ [Update qs b d]"
  "fst (qs_update qs b d w) = length (rows (db w) qs)"
  by (simp_all add: qs_update_def)

lemma cascade_delete_step_db:
  "db (cascade_delete_step clk meta self rel w) =
     (if cascades meta rel
      then map (\<lambda>r. if reached (default_manager meta (related_model rel)) self rel r
                     then set_flags True (Some (clk (tick w))) r else r) (db w)
      else db w)"
  by (cases "kind rel")
     (auto simp: cascade_delete_step_def cascades_def getattr_related_def now_def db_qs_update
        matches_rm_all qs_model_rm_all split: list.splits)

lemma cascade_delete_step_tick:
  "tick (cascade_delete_step clk meta self rel w) = (if cascades meta rel then Suc (tick w) else tick w)"
  by (cases "kind rel")
     (auto simp: cascade_delete_step_def cascades_def getattr_related_def now_def db_qs_update
        qs_model_rm_all split: list.splits)

lemma cascade_restore_step_db:
  "db (cascade_restore_step meta self rel w) =
     (if cascades meta rel \<and> default_manager meta (related_model rel) = SoftDeleteManager
      then map (\<lambda>r. if reached SoftDeleteManager self rel r then set_flags False None r else r) (db w)
      else db w)"
  by (cases "kind rel"; cases "default_manager meta (related_model rel)")
     (auto simp: cascade_restore_step_def cascades_def getattr_related_def db_qs_update
        matches_rm_all qs_model_rm_all qs_model_rm_deleted_only split: list.splits)

lemma inv_db_bulk:
  "inv_db meta d \<Longrightarrow> (b = False) = (t = None) \<Longrightarrow>
   inv_db meta (map (\<lambda>r. if P r then set_flags b t r else r) d)"
  by (auto simp: inv_db_def list_all_iff inv_row_def set_flags_simps)

lemma inv_db_save: "inv_db meta (db w) \<Longrightarrow> inv_row s \<Longrightarrow> inv_db meta (db (save s w))"
  by (auto simp: inv_db_def list_all_iff save_def)

lemma inv_db_cascade_delete_step:
  "inv_db meta (db w) \<Longrightarrow> inv_db meta (db (cascade_delete_step clk meta self rel w))"
  by (simp add: cascade_delete_step_db inv_db_bulk)

lemma inv_db_cascade_restore_step:
  "inv_db meta (db w) \<Longrightarrow> inv_db meta (db (cascade_restore_step meta self rel w))"
  by (simp add: cascade_restore_step_db inv_db_bulk)

lemma inv_db_cascade_delete:
  "inv_db meta (db w) \<Longrightarrow> inv_db meta (db (cascade_delete clk meta self rels w))"
  by (induction rels arbitrary: w) (simp_all add: inv_db_cascade_delete_step)

lemma inv_db_cascade_restore:
  "inv_db meta (db w) \<Longrightarrow> inv_db meta (db (cascade_restore meta self rels w))"
  by (induction rels arbitrary: w) (simp_all add: inv_db_cascade_restore_step)

lemma inv_row_set_flags: "(b = False) = (t = None) \<Longrightarrow> inv_row (set_flags b t r)"
  by (simp add: inv_row_def set_flags_simps)

lemma inv_db_model_delete:
  "inv_db meta (db w) \<Longrightarrow> inv_db meta (db (snd (model_delete clk meta self w)))"
  by (simp add: model_delete_def model_soft_delete_def now_def inv_db_cascade_delete
      inv_db_save inv_row_set_flags)

lemma inv_db_model_restore:
  "inv_db meta (db w) \<Longrightarrow> inv_db meta (db (snd (model_restore meta self w)))"
  by (simp add: model_restore_def inv_db_cascade_restore inv_db_save inv_row_set_flags)

lemma inv_row_model_delete: "inv_row self \<Longrightarrow> inv_row (fst (model_delete clk meta self w))"
  by (simp add: model_delete_def model_soft_delete_def now_def inv_row_set_flags)

lemma inv_row_model_restore: "inv_row self \<Longrightarrow> inv_row (fst (model_restore meta self w))"
  by (simp add: model_restore_def inv_row_set_flags)

lemma inv_db_qs_delete: "inv_db meta (db w) \<Longrightarrow> inv_db meta (db (snd (qs_delete clk qs w)))"
  by (simp add: qs_delete_def qs_soft_delete_def now_def db_qs_update inv_db_bulk)

lemma inv_db_qs_restore: "inv_db meta (db w) \<Longrightarrow> inv_db meta (db (snd (qs_restore qs w)))"
  by (simp add: qs_restore_def db_qs_update inv_db_bulk)

lemma cascade_delete_step_rel:
  "list_all2 (\<lambda>r r'. model r' = model r \<and> pk r' = pk r \<and> fks r' = fks r \<and>
                      (is_deleted r \<longrightarrow> is_deleted r') \<and>
                      (r' = r \<or> cascades meta rel \<and> references self rel r))
     (db w) (db (cascade_delete_step clk meta self rel w))"
  by (simp add: cascade_delete_step_db list_all2_map2 list_all2_same reached_def set_flags_simps)

lemma cascade_delete_rel:
  "list_all2 (\<lambda>r r'. model r' = model r \<and> pk r' = pk r \<and> fks r' = fks r \<and>
                      (is_deleted r \<longrightarrow> is_deleted r') \<and>
                      (r' = r \<or> (\<exists>rel\<in>set rels. cascades meta rel \<and> references self rel r)))
     (db w) (db (cascade_delete clk meta self rels w))"
proof (induction rels arbitrary: w)
  case Nil
  show ?case by (simp add: list_all2_same)
next
  case (Cons rel rels)
  show ?case
    unfolding cascade_delete.simps
    by (rule list_all2_trans [OF _ cascade_delete_step_rel [where meta = meta and rel = rel and self = self and w = w and clk = clk]
          Cons.IH [where w = "cascade_delete_step clk meta self rel w"]])
       (auto simp: references_def)
qed

lemma list_all2_in_set2:
  "list_all2 P xs ys \<Longrightarrow> y \<in> set ys \<Longrightarrow> \<exists>x\<in>set xs. P x y"
  by (induction rule: list_all2_induct) auto



lemma save_nth:
  "i < length (db w) \<Longrightarrow> db (save s w) ! i = (if same_record s (db w ! i) then s else db w ! i)"
  by (auto simp: save_def nth_append list_ex_iff)

lemma save_length: "length (db w) \<le> length (db (save s w))"
  by (simp add: save_def)

lemma save_set:
  "r \<in> set (db (save s w)) \<Longrightarrow> (if same_record s r then r = s else r \<in> set (db w))"
  by (auto simp: save_def list_ex_iff same_record_def split: if_splits)

lemma save_stored: "list_ex (same_record s) (db (save s w))"
  by (auto simp: save_def list_ex_iff same_record_def)



lemma cascade_delete_self_rows:
  "r \<in> set (db (cascade_delete clk meta self rels w)) \<Longrightarrow> same_record s r \<Longrightarrow>
   \<exists>r0\<in>set (db w). same_record s r0 \<and> (is_deleted r0 \<longrightarrow> is_deleted r)"
  using list_all2_in_set2 [OF cascade_delete_rel [where meta = meta and self = self and rels = rels and w = w and clk = clk], of r]
  by (auto simp: same_record_def)


lemma model_delete_active:
  "\<not> is_deleted self \<Longrightarrow>
   model_delete clk meta self w =
     (set_flags True (Some (clk (tick w))) self,
      cascade_delete clk meta (set_flags True (Some (clk (tick w))) self)
        (related_objects meta (model self))
        (save (set_flags True (Some (clk (tick w))) self) (w\<lparr>tick := Suc (tick w)\<rparr>)))"
  by (simp add: model_delete_def model_soft_delete_def now_def)

lemma model_delete_self_rows:
  assumes "\<not> is_deleted self" "r \<in> set (db (snd (model_delete clk meta self w)))" "same_record self r"
  shows "is_deleted r"
proof -
  let ?s = "set_flags True (Some (clk (tick w))) self"
  have sr: "\<And>x. same_record ?s x = same_record self x"
    by (simp add: same_record_def set_flags_simps)
  from assms obtain r0 where r0: "r0 \<in> set (db (save ?s (w\<lparr>tick := Suc (tick w)\<rparr>)))"
      "same_record self r0" "is_deleted r0 \<longrightarrow> is_deleted r"
    using cascade_delete_self_rows [where r = r and clk = clk and meta = meta and self = "?s" and rels = "related_objects meta (model self)" and s = self]
    by (auto simp: model_delete_active)
  from save_set [OF r0(1)] r0(2) have "r0 = ?s" by (simp add: sr)
  with r0(3) show ?thesis by (simp add: set_flags_simps)
qed

lemma stamped_mono: "stamped clk lo hi r \<Longrightarrow> lo' \<le> lo \<Longrightarrow> hi \<le> hi' \<Longrightarrow> stamped clk lo' hi' r"
  by (auto simp: stamped_def list_ex_iff)

lemma stamped_set_flags: "lo \<le> j \<Longrightarrow> j < hi \<Longrightarrow> stamped clk lo hi (set_flags True (Some (clk j)) r)"
  by (auto simp: stamped_def list_ex_iff set_flags_simps)

lemma cascade_delete_step_stamps:
  "list_all2 (\<lambda>r r'. model r' = model r \<and> fks r' = fks r \<and>
                      (r' = r \<or> stamped clk (tick w) (tick (cascade_delete_step clk meta self rel w)) r'))
     (db w) (db (cascade_delete_step clk meta self rel w))"
  by (simp add: cascade_delete_step_db cascade_delete_step_tick list_all2_map2 list_all2_same
      set_flags_simps stamped_set_flags)

lemma cascade_delete_step_tick_le: "tick w \<le> tick (cascade_delete_step clk meta self rel w)"
  by (simp add: cascade_delete_step_tick)

lemma cascade_delete_tick_le: "tick w \<le> tick (cascade_delete clk meta self rels w)"
proof (induction rels arbitrary: w)
  case Nil
  show ?case by simp
next
  case (Cons rel rels)
  from Cons.IH [where w = "cascade_delete_step clk meta self rel w"]
    cascade_delete_step_tick_le [where w = w and clk = clk and meta = meta and self = self and rel = rel]
  show ?case by simp
qed

lemma cascade_delete_stamps:
  "list_all2 (\<lambda>r r'. model r' = model r \<and> fks r' = fks r \<and>
                      (r' = r \<or> stamped clk (tick w) (tick (cascade_delete clk meta self rels w)) r'))
     (db w) (db (cascade_delete clk meta self rels w))"
proof (induction rels arbitrary: w)
  case Nil
  show ?case by (simp add: list_all2_same)
next
  case (Cons rel rels)
  let ?w1 = "cascade_delete_step clk meta self rel w"
  have le1: "tick w \<le> tick ?w1"
    by (rule cascade_delete_step_tick_le)
  have le2: "tick ?w1 \<le> tick (cascade_delete clk meta self rels ?w1)"
    by (rule cascade_delete_tick_le)
  show ?case
    unfolding cascade_delete.simps
  proof (rule list_all2_trans [OF _ cascade_delete_step_stamps [where w = w and clk = clk
            and meta = meta and self = self and rel = rel] Cons.IH [where w = "?w1"]])
    fix a b c
    assume ab: "model b = model a \<and> fks b = fks a \<and> (b = a \<or> stamped clk (tick w) (tick ?w1) b)"
      and bc: "model c = model b \<and> fks c = fks b \<and>
               (c = b \<or> stamped clk (tick ?w1) (tick (cascade_delete clk meta self rels ?w1)) c)"
    from ab bc le1 le2
    show "model c = model a \<and> fks c = fks a \<and>
          (c = a \<or> stamped clk (tick w) (tick (cascade_delete clk meta self rels ?w1)) c)"
      by (auto intro: stamped_mono)
  qed
qed

lemma cascade_delete_step_stamps_all:
  assumes "cascades meta rel" "default_manager meta (related_model rel) = Manager"
    "r \<in> set (db (cascade_delete_step clk meta self rel w))" "references self rel r"
  shows "stamped clk (tick w) (tick (cascade_delete_step clk meta self rel w)) r"
  using assms
  by (auto simp: cascade_delete_step_db cascade_delete_step_tick reached_def set_flags_simps
      references_def stamped_set_flags split: if_splits)

lemma cascade_delete_stamps_all:
  "rel \<in> set rels \<Longrightarrow> cascades meta rel \<Longrightarrow> default_manager meta (related_model rel) = Manager \<Longrightarrow>
   r \<in> set (db (cascade_delete clk meta self rels w)) \<Longrightarrow> references self rel r \<Longrightarrow>
   stamped clk (tick w) (tick (cascade_delete clk meta self rels w)) r"
proof (induction rels arbitrary: w)
  case Nil
  then show ?case by simp
next
  case (Cons x rels)
  let ?w1 = "cascade_delete_step clk meta self x w"
  let ?w2 = "cascade_delete clk meta self rels ?w1"
  have le1: "tick w \<le> tick ?w1"
    by (rule cascade_delete_step_tick_le)
  have le2: "tick ?w1 \<le> tick ?w2"
    by (rule cascade_delete_tick_le)
  from Cons.prems(4) have r: "r \<in> set (db ?w2)" by simp
  show ?case
  proof (cases "rel = x")
    case True
    from list_all2_in_set2 [OF cascade_delete_stamps [where w = "?w1" and clk = clk and meta = meta
          and self = self and rels = rels] r]
    obtain r0 where r0: "r0 \<in> set (db ?w1)" "model r = model r0" "fks r = fks r0"
      "r = r0 \<or> stamped clk (tick ?w1) (tick ?w2) r"
      by auto
    from r0(2,3) Cons.prems(5) have "references self rel r0" by (simp add: references_def)
    with True Cons.prems(2,3) r0(1) have "stamped clk (tick w) (tick ?w1) r0"
      by (auto intro: cascade_delete_step_stamps_all)
    with r0(4) le1 le2 have "stamped clk (tick w) (tick ?w2) r"
      by (auto intro: stamped_mono)
    then show ?thesis by simp
  next
    case False
    with Cons.prems(1) have "rel \<in> set rels" by simp
    from Cons.IH [OF this Cons.prems(2,3) r Cons.prems(5)] le1
    have "stamped clk (tick w) (tick ?w2) r"
      by (auto intro: stamped_mono)
    then show ?thesis by simp
  qed
qed

lemma cascade_restore_step_rel:
  "list_all2 (\<lambda>r r'. model r' = model r \<and> pk r' = pk r \<and> fks r' = fks r \<and>
                      is_deleted r' = is_deleted r \<and> (r' = r \<or> r' = set_flags False None r))
     (db w) (db (cascade_restore_step meta self rel w))"
  by (simp add: cascade_restore_step_db list_all2_map2 list_all2_same reached_def set_flags_simps)

lemma set_flags_idem: "set_flags b d (set_flags b d r) = set_flags b d r"
  by (simp add: set_flags_def)

lemma cascade_restore_rel:
  "list_all2 (\<lambda>r r'. model r' = model r \<and> pk r' = pk r \<and> fks r' = fks r \<and>
                      is_deleted r' = is_deleted r \<and> (r' = r \<or> r' = set_flags False None r))
     (db w) (db (cascade_restore meta self rels w))"
proof (induction rels arbitrary: w)
  case Nil
  show ?case by (simp add: list_all2_same)
next
  case (Cons rel rels)
  show ?case
    unfolding cascade_restore.simps
    by (rule list_all2_trans [OF _ cascade_restore_step_rel [where meta = meta and rel = rel
            and self = self and w = w] Cons.IH [where w = "cascade_restore_step meta self rel w"]])
       (auto simp: set_flags_idem)
qed

lemma cascade_restore_length: "length (db (cascade_restore meta self rels w)) = length (db w)"
  using cascade_restore_rel [where meta = meta and self = self and rels = rels and w = w]
  by (simp add: list_all2_lengthD)

lemma cascade_restore_stored:
  assumes "list_ex (same_record s) (db w)"
  shows "list_ex (same_record s) (db (cascade_restore meta self rels w))"
proof -
  from assms obtain i where i: "i < length (db w)" "same_record s (db w ! i)"
    by (auto simp: list_ex_iff in_set_conv_nth)
  from list_all2_nthD [OF cascade_restore_rel [where meta = meta and self = self and rels = rels
        and w = w] i(1)] i(2)
  have "same_record s (db (cascade_restore meta self rels w) ! i)"
    by (simp add: same_record_def)
  with i(1) show ?thesis
    by (auto simp: list_ex_iff in_set_conv_nth cascade_restore_length intro!: exI [of _ i])
qed

lemma set_flags_default: "\<not> is_deleted r \<Longrightarrow> deleted_at r = None \<Longrightarrow> set_flags False None r = r"
  by (simp add: set_flags_def)

lemma set_flags_twice: "set_flags b d (set_flags b' d' r) = set_flags b d r"
  by (simp add: set_flags_def)

lemma model_restore_keeps_is_deleted:
  assumes "i < length (db w)" "\<not> same_record self (db w ! i)"
  shows "is_deleted (db (snd (model_restore meta self w)) ! i) = is_deleted (db w ! i)"
proof (cases "is_deleted self")
  case False
  then show ?thesis by (simp add: model_restore_def)
next
  case True
  let ?s = "set_flags False None self"
  let ?w1 = "save ?s w"
  have sr: "same_record ?s = same_record self"
    by (rule ext) (simp add: same_record_def set_flags_simps)
  from assms have s1: "db ?w1 ! i = db w ! i"
    using save_nth [where w = w and s = "?s" and i = i] by (simp add: sr)
  from assms(1) have i1: "i < length (db ?w1)"
    using save_length [where w = w and s = "?s"] by simp
  from list_all2_nthD [OF cascade_restore_rel [where meta = meta and self = "?s"
        and rels = "related_objects meta (model self)" and w = "?w1"] i1]
  have "is_deleted (db (cascade_restore meta ?s (related_objects meta (model self)) ?w1) ! i) =
        is_deleted (db ?w1 ! i)"
    by simp
  with True s1 show ?thesis
    by (simp add: model_restore_def)
qed



lemma cascade_delete_step_restamps:
  "list_all2 (\<lambda>r r'. r' = r \<or>
                      (tick (cascade_delete_step clk meta self rel w) = Suc (tick w) \<and>
                       r' = set_flags True (Some (clk (tick w))) r))
     (db w) (db (cascade_delete_step clk meta self rel w))"
  by (simp add: cascade_delete_step_db cascade_delete_step_tick list_all2_map2 list_all2_same)

lemma restamp_widen:
  "list_ex (\<lambda>j. r' = set_flags True (Some (clk j)) r) [lo..<hi] \<Longrightarrow> lo' \<le> lo \<Longrightarrow> hi \<le> hi' \<Longrightarrow>
   list_ex (\<lambda>j. r' = set_flags True (Some (clk j)) r) [lo'..<hi']"
  by (auto simp: list_ex_iff)

lemma cascade_delete_restamps:
  "list_all2 (\<lambda>r r'. r' = r \<or>
                      list_ex (\<lambda>j. r' = set_flags True (Some (clk j)) r)
                        [tick w..<tick (cascade_delete clk meta self rels w)])
     (db w) (db (cascade_delete clk meta self rels w))"
proof (induction rels arbitrary: w)
  case Nil
  show ?case by (simp add: list_all2_same)
next
  case (Cons rel rels)
  let ?w1 = "cascade_delete_step clk meta self rel w"
  let ?w2 = "cascade_delete clk meta self rels ?w1"
  have le2: "tick ?w1 \<le> tick ?w2"
    by (rule cascade_delete_tick_le)
  have le1: "tick w \<le> tick ?w1"
    by (rule cascade_delete_step_tick_le)
  show ?case
    unfolding cascade_delete.simps
  proof (rule list_all2_trans [OF _ cascade_delete_step_restamps [where w = w and clk = clk
            and meta = meta and self = self and rel = rel] Cons.IH [where w = "?w1"]])
    fix a b c
    assume ab: "b = a \<or> (tick ?w1 = Suc (tick w) \<and> b = set_flags True (Some (clk (tick w))) a)"
      and bc: "c = b \<or> list_ex (\<lambda>j. c = set_flags True (Some (clk j)) b) [tick ?w1..<tick ?w2]"
    from bc show "c = a \<or> list_ex (\<lambda>j. c = set_flags True (Some (clk j)) a) [tick w..<tick ?w2]"
    proof
      assume cb: "c = b"
      from ab show ?thesis
      proof
        assume "b = a"
        with cb show ?thesis by simp
      next
        assume "tick ?w1 = Suc (tick w) \<and> b = set_flags True (Some (clk (tick w))) a"
        with cb le2 have "tick w < tick ?w2" "c = set_flags True (Some (clk (tick w))) a"
          by simp_all
        then show ?thesis by (auto simp: list_ex_iff)
      qed
    next
      assume "list_ex (\<lambda>j. c = set_flags True (Some (clk j)) b) [tick ?w1..<tick ?w2]"
      then obtain j where j: "tick ?w1 \<le> j" "j < tick ?w2" "c = set_flags True (Some (clk j)) b"
        by (auto simp: list_ex_iff)
      from ab j(3) have "c = set_flags True (Some (clk j)) a"
        by (auto simp: set_flags_twice)
      with j(1,2) le1 show ?thesis by (auto simp: list_ex_iff)
    qed
  qed
qed

lemma cascade_delete_step_restamps_nth:
  assumes "cascades meta rel"
    "default_manager meta (related_model rel) = Manager \<or> \<not> is_deleted (db w ! i)"
    "i < length (db w)" "references self rel (db w ! i)"
  shows "db (cascade_delete_step clk meta self rel w) ! i = set_flags True (Some (clk (tick w))) (db w ! i) \<and>
         tick (cascade_delete_step clk meta self rel w) = Suc (tick w)"
  using assms by (auto simp: cascade_delete_step_db cascade_delete_step_tick reached_def)

lemma cascade_delete_step_length: "length (db (cascade_delete_step clk meta self rel w)) = length (db w)"
  by (simp add: cascade_delete_step_db)

lemma cascade_delete_step_references_nth:
  assumes "i < length (db w)"
  shows "references self rel' (db (cascade_delete_step clk meta self rel w) ! i) =
         references self rel' (db w ! i)"
  using assms by (simp add: cascade_delete_step_db references_def set_flags_simps)

lemma cascade_delete_restamps_nth:
  "rel \<in> set rels \<Longrightarrow> cascades meta rel \<Longrightarrow>
   default_manager meta (related_model rel) = Manager \<or> \<not> is_deleted (db w ! i) \<Longrightarrow>
   i < length (db w) \<Longrightarrow> references self rel (db w ! i) \<Longrightarrow>
   list_ex (\<lambda>j. db (cascade_delete clk meta self rels w) ! i = set_flags True (Some (clk j)) (db w ! i))
     [tick w..<tick (cascade_delete clk meta self rels w)]"
proof (induction rels arbitrary: w)
  case Nil
  then show ?case by simp
next
  case (Cons x rels)
  let ?w1 = "cascade_delete_step clk meta self x w"
  let ?w2 = "cascade_delete clk meta self rels ?w1"
  have le1: "tick w \<le> tick ?w1"
    by (rule cascade_delete_step_tick_le)
  have le2: "tick ?w1 \<le> tick ?w2"
    by (rule cascade_delete_tick_le)
  from Cons.prems(4) have i1: "i < length (db ?w1)"
    by (simp add: cascade_delete_step_length)
  have step: "db ?w1 ! i = db w ! i \<or>
              (tick ?w1 = Suc (tick w) \<and> db ?w1 ! i = set_flags True (Some (clk (tick w))) (db w ! i))"
    using list_all2_nthD [OF cascade_delete_step_restamps [where w = w and clk = clk and meta = meta
          and self = self and rel = x] Cons.prems(4)]
    by simp
  have rest: "db ?w2 ! i = db ?w1 ! i \<or>
              list_ex (\<lambda>j. db ?w2 ! i = set_flags True (Some (clk j)) (db ?w1 ! i)) [tick ?w1..<tick ?w2]"
    using list_all2_nthD [OF cascade_delete_restamps [where w = "?w1" and clk = clk and meta = meta
          and self = self and rels = rels] i1]
    by simp
  have stamped_then: "list_ex (\<lambda>j. db ?w2 ! i = set_flags True (Some (clk j)) (db w ! i)) [tick w..<tick ?w2]"
    if s: "db ?w1 ! i = set_flags True (Some (clk (tick w))) (db w ! i)" "tick ?w1 = Suc (tick w)"
    using rest
  proof
    assume "db ?w2 ! i = db ?w1 ! i"
    with s le2 have "db ?w2 ! i = set_flags True (Some (clk (tick w))) (db w ! i)" "tick w < tick ?w2"
      by simp_all
    then show ?thesis by (auto simp: list_ex_iff)
  next
    assume "list_ex (\<lambda>j. db ?w2 ! i = set_flags True (Some (clk j)) (db ?w1 ! i)) [tick ?w1..<tick ?w2]"
    then obtain j where j: "tick ?w1 \<le> j" "j < tick ?w2"
      "db ?w2 ! i = set_flags True (Some (clk j)) (db ?w1 ! i)"
      by (auto simp: list_ex_iff)
    from j(3) s(1) have "db ?w2 ! i = set_flags True (Some (clk j)) (db w ! i)"
      by (simp add: set_flags_twice)
    with j(1,2) le1 show ?thesis by (auto simp: list_ex_iff)
  qed
  have "list_ex (\<lambda>j. db ?w2 ! i = set_flags True (Some (clk j)) (db w ! i)) [tick w..<tick ?w2]"
  proof (cases "rel = x")
    case True
    from cascade_delete_step_restamps_nth [OF Cons.prems(2,3,4,5), where clk = clk] True
    have "db ?w1 ! i = set_flags True (Some (clk (tick w))) (db w ! i)" "tick ?w1 = Suc (tick w)"
      by simp_all
    then show ?thesis by (rule stamped_then)
  next
    case False
    with Cons.prems(1) have m: "rel \<in> set rels" by simp
    from step show ?thesis
    proof
      assume same: "db ?w1 ! i = db w ! i"
      with Cons.prems(3,5) have "default_manager meta (related_model rel) = Manager \<or>
          \<not> is_deleted (db ?w1 ! i)" "references self rel (db ?w1 ! i)"
        by simp_all
      from Cons.IH [OF m Cons.prems(2) this(1) i1 this(2)]
      obtain j where j: "tick ?w1 \<le> j" "j < tick ?w2"
        "db ?w2 ! i = set_flags True (Some (clk j)) (db ?w1 ! i)"
        by (auto simp: list_ex_iff)
      with same le1 show ?thesis by (auto simp: list_ex_iff)
    next
      assume "tick ?w1 = Suc (tick w) \<and> db ?w1 ! i = set_flags True (Some (clk (tick w))) (db w ! i)"
      then show ?thesis by (blast intro: stamped_then)
    qed
  qed
  then show ?case by simp
qed

lemma cascade_delete_step_keeps_deleted:
  "list_all2 (\<lambda>r r'. is_deleted r \<and> default_manager meta (model r) = SoftDeleteManager \<longrightarrow> r' = r)
     (db w) (db (cascade_delete_step clk meta self rel w))"
  by (auto simp: cascade_delete_step_db list_all2_map2 list_all2_same reached_def references_def)

lemma cascade_delete_keeps_deleted:
  "list_all2 (\<lambda>r r'. is_deleted r \<and> default_manager meta (model r) = SoftDeleteManager \<longrightarrow> r' = r)
     (db w) (db (cascade_delete clk meta self rels w))"
proof (induction rels arbitrary: w)
  case Nil
  show ?case by (simp add: list_all2_same)
next
  case (Cons rel rels)
  show ?case
    unfolding cascade_delete.simps
    by (rule list_all2_trans [OF _ cascade_delete_step_keeps_deleted [where meta = meta and rel = rel
            and self = self and w = w and clk = clk]
          Cons.IH [where w = "cascade_delete_step clk meta self rel w"]])
       auto
qed

section \<open>The flag invariant\<close>

text \<open>
  Claim C1. For every entity with the soft-delete capability, \<open>is_deleted = False\<close> holds
  exactly when \<open>deleted_at = None\<close>: at creation, where both fields are at their defaults,
  and after every operation of the component. The instance keeps the invariant through
  its own \<^verbatim>\<open>delete()\<close> and \<^verbatim>\<open>restore()\<close>, and the stored records keep it through the
  per-entity \<^verbatim>\<open>delete()\<close> and \<^verbatim>\<open>restore()\<close>, the queryset's \<^verbatim>\<open>delete()\<close> and
  \<^verbatim>\<open>restore()\<close>, and each bulk update of the two cascades.
\<close>

theorem flags_invariant:
  "inv_row (new_entity m k fs) \<and>
   (inv_row self \<longrightarrow>
      inv_row (fst (model_delete clk meta self w)) \<and> inv_row (fst (model_restore meta self w))) \<and>
   (inv_db meta (db w) \<longrightarrow>
      inv_db meta (db (snd (model_delete clk meta self w))) \<and>
      inv_db meta (db (snd (model_restore meta self w))) \<and>
      inv_db meta (db (snd (qs_delete clk qs w))) \<and>
      inv_db meta (db (snd (qs_restore qs w))) \<and>
      inv_db meta (db (cascade_delete_step clk meta self rel w)) \<and>
      inv_db meta (db (cascade_restore_step meta self rel w)))"
proof (intro conjI impI)
  show "inv_row (new_entity m k fs)"
    by (simp add: inv_row_def new_entity_def)
next
  assume "inv_row self"
  then show "inv_row (fst (model_delete clk meta self w))"
    by (rule inv_row_model_delete)
next
  assume "inv_row self"
  then show "inv_row (fst (model_restore meta self w))"
    by (rule inv_row_model_restore)
next
  assume "inv_db meta (db w)"
  then show "inv_db meta (db (snd (model_delete clk meta self w)))"
    by (rule inv_db_model_delete)
next
  assume "inv_db meta (db w)"
  then show "inv_db meta (db (snd (model_restore meta self w)))"
    by (rule inv_db_model_restore)
next
  assume "inv_db meta (db w)"
  then show "inv_db meta (db (snd (qs_delete clk qs w)))"
    by (rule inv_db_qs_delete)
next
  assume "inv_db meta (db w)"
  then show "inv_db meta (db (snd (qs_restore qs w)))"
    by (rule inv_db_qs_restore)
next
  assume "inv_db meta (db w)"
  then show "inv_db meta (db (cascade_delete_step clk meta self rel w))"
    by (rule inv_db_cascade_delete_step)
next
  assume "inv_db meta (db w)"
  then show "inv_db meta (db (cascade_restore_step meta self rel w))"
    by (rule inv_db_cascade_restore_step)
qed


text \<open>The library satisfies the invariant before, and so after each operation.\<close>

theorem flags_invariant_witness:
  "inv_row author \<and> inv_db (library_meta Manager) (db library) \<and>
   inv_row (new_entity ''Book'' 4 [(''author'', 1)]) \<and>
   inv_row (fst (model_delete clock (library_meta Manager) author library)) \<and>
   inv_row (fst (model_restore (library_meta Manager) author library)) \<and>
   inv_db (library_meta Manager) (db (snd (model_delete clock (library_meta Manager) author library))) \<and>
   inv_db (library_meta Manager) (db (snd (model_restore (library_meta Manager) author library))) \<and>
   inv_db (library_meta Manager) (db (snd (qs_delete clock (get_all ''Book'') library))) \<and>
   inv_db (library_meta Manager) (db (snd (qs_restore (get_all ''Book'') library))) \<and>
   inv_db (library_meta Manager) (db (cascade_delete_step clock (library_meta Manager) author book_rel library)) \<and>
   inv_db (library_meta Manager) (db (cascade_restore_step (library_meta Manager) author book_rel library))"
proof -
  have h1: "inv_row author"
    by code_simp
  have h2: "inv_db (library_meta Manager) (db library)"
    by code_simp
  show ?thesis
    using h1 h2
      flags_invariant [where self = author and meta = "library_meta Manager" and w = library
        and clk = clock and qs = "get_all ''Book''" and rel = book_rel and m = "''Book''"
        and k = 4 and fs = "[(''author'', 1)]"]
    by simp
qed

section \<open>Per-entity delete\<close>




section \<open>Per-entity restore\<close>

text \<open>
  Claim C3. For a deleted entity, \<^verbatim>\<open>restore()\<close> clears the two flags, persists the entity
  and is then to restore, through each cascading relationship, the soft-deleted records
  that reference the entity. The code does not: the loop tests for \<^verbatim>\<open>deleted_only\<close>, which
  a reverse accessor built from a plain \<^verbatim>\<open>Manager\<close> lacks, and where the accessor has it
  (built from \<^verbatim>\<open>SoftDeleteManager\<close>) the update is issued on \<^verbatim>\<open>related_manager.all()\<close>,
  the active records, not on the \<^verbatim>\<open>deleted_only()\<close> queryset fetched one line above. In
  the library, with either manager class, deleting the author flags the first book and
  restoring the author leaves that book deleted.
\<close>

theorem restore_leaves_related_deleted:
  "(case model_delete clock (library_meta Manager) author library of
      (a, w) \<Rightarrow>
        is_deleted a \<and> references author book_rel (db w ! 1) \<and> is_deleted (db w ! 1) \<and>
        \<not> is_deleted (fst (model_restore (library_meta Manager) a w)) \<and>
        is_deleted (db (snd (model_restore (library_meta Manager) a w)) ! 1) \<and>
        writes (snd (model_restore (library_meta Manager) a w)) = writes w @ [Save ''Author'' 1]) \<and>
   (case model_delete clock (library_meta SoftDeleteManager) author library of
      (a, w) \<Rightarrow>
        is_deleted a \<and> references author book_rel (db w ! 1) \<and> is_deleted (db w ! 1) \<and>
        \<not> is_deleted (fst (model_restore (library_meta SoftDeleteManager) a w)) \<and>
        is_deleted (db (snd (model_restore (library_meta SoftDeleteManager) a w)) ! 1) \<and>
        writes (snd (model_restore (library_meta SoftDeleteManager) a w)) =
          writes w @ [Save ''Author'' 1,
                      Update \<lparr>qs_model = ''Book'',
                              qs_where = [Is_deleted_eq False, Fk_eq ''author'' 1]\<rparr> False None])"
  by code_simp

section \<open>The default accessor and its escape hatches\<close>

text \<open>
  Claim C4. For every model with the capability, the default lookup entry point
  (\<^verbatim>\<open>objects\<close>, whose \<^verbatim>\<open>get_queryset()\<close> is the source's) returns exactly the stored records
  of the model with \<open>is_deleted\<close> false; \<^verbatim>\<open>get_all()\<close> returns all stored records of the
  model and \<^verbatim>\<open>deleted_only()\<close> exactly those with \<open>is_deleted\<close> true. So an entity on
  which \<^verbatim>\<open>delete()\<close> was called (its in-memory copy not being a stale deleted copy of an
  active record) is absent from the default lookup.
\<close>

theorem default_lookup_excludes_deleted:
  "rows d (get_queryset SoftDeleteManager m) = filter (\<lambda>r. model r = m \<and> \<not> is_deleted r) d \<and>
   rows d (get_all m) = filter (\<lambda>r. model r = m) d \<and>
   rows d (deleted_only m) = filter (\<lambda>r. model r = m \<and> is_deleted r) d \<and>
   ((is_deleted self \<longrightarrow> list_all (\<lambda>r. same_record self r \<longrightarrow> is_deleted r) (db w)) \<longrightarrow>
      \<not> list_ex (same_record self)
          (rows (db (snd (model_delete clk meta self w)))
             (get_queryset SoftDeleteManager (model self))))"
proof -
  have c1: "rows d (get_queryset SoftDeleteManager m) = filter (\<lambda>r. model r = m \<and> \<not> is_deleted r) d"
    unfolding rows_def
    by (rule filter_cong) (auto simp: matches_def active_def qs_filter_def soft_queryset_def)
  have c2: "rows d (get_all m) = filter (\<lambda>r. model r = m) d"
    unfolding rows_def
    by (rule filter_cong) (auto simp: matches_def get_all_def soft_queryset_def)
  have c3: "rows d (deleted_only m) = filter (\<lambda>r. model r = m \<and> is_deleted r) d"
    unfolding rows_def
    by (rule filter_cong)
       (auto simp: matches_def deleted_only_def deleted_def qs_filter_def soft_queryset_def)
  have c4: "\<not> list_ex (same_record self)
              (rows (db (snd (model_delete clk meta self w)))
                 (get_queryset SoftDeleteManager (model self)))"
    if fresh: "is_deleted self \<longrightarrow> list_all (\<lambda>r. same_record self r \<longrightarrow> is_deleted r) (db w)"
  proof (cases "is_deleted self")
    case True
    with fresh have "\<forall>r\<in>set (db w). same_record self r \<longrightarrow> is_deleted r"
      by (simp add: list_all_iff)
    moreover from True have "model_delete clk meta self w = (self, w)"
      by (simp add: model_delete_def model_soft_delete_def)
    ultimately show ?thesis
      by (auto simp: list_ex_iff rows_def matches_def active_def qs_filter_def soft_queryset_def)
  next
    case False
    then have "\<forall>r\<in>set (db (snd (model_delete clk meta self w))). same_record self r \<longrightarrow> is_deleted r"
      by (blast intro: model_delete_self_rows)
    then show ?thesis
      by (auto simp: list_ex_iff rows_def matches_def active_def qs_filter_def soft_queryset_def)
  qed
  from c1 c2 c3 c4 show ?thesis by blast
qed

text \<open>
  The books of the library through the three accessors, and the author through the
  default accessor before and after \<^verbatim>\<open>delete()\<close>.
\<close>

theorem default_lookup_excludes_deleted_witness:
  "map pk (rows library_db (get_queryset SoftDeleteManager ''Book'')) = [1, 3] \<and>
   map pk (rows library_db (get_all ''Book'')) = [1, 2, 3] \<and>
   map pk (rows library_db (deleted_only ''Book'')) = [2] \<and>
   \<not> is_deleted author \<and>
   list_ex (same_record author) (rows (db library) (get_queryset SoftDeleteManager (model author))) \<and>
   \<not> list_ex (same_record author)
       (rows (db (snd (model_delete clock (library_meta Manager) author library)))
          (get_queryset SoftDeleteManager (model author)))"
proof -
  note t = default_lookup_excludes_deleted [where d = library_db and m = "''Book''"
      and self = author and w = library and clk = clock and meta = "library_meta Manager"]
  have h: "\<not> is_deleted author"
    by code_simp
  have b: "list_ex (same_record author) (rows (db library) (get_queryset SoftDeleteManager (model author)))"
    by code_simp
  have f: "map pk (filter (\<lambda>r. model r = ''Book'' \<and> \<not> is_deleted r) library_db) = [1, 3]"
    "map pk (filter (\<lambda>r. model r = ''Book'') library_db) = [1, 2, 3]"
    "map pk (filter (\<lambda>r. model r = ''Book'' \<and> is_deleted r) library_db) = [2]"
    by code_simp+
  from t h b f show ?thesis by simp
qed

section \<open>Idempotence of the per-entity delete\<close>

text \<open>
  Claim C5. The per-entity \<^verbatim>\<open>delete()\<close> is idempotent: a second call, on the instance and
  the world the first call left, returns that same instance and that same world. The
  world holds the stored records (the entity's and all related ones), the number of
  clock reads and the write log, so the second call changes no record and issues no
  write: it stops at the guard for an already deleted entity.
\<close>

theorem delete_idempotent:
  "model_delete clk meta (fst (model_delete clk meta self w)) (snd (model_delete clk meta self w)) =
     model_delete clk meta self w"
proof (cases "is_deleted self")
  case True
  then show ?thesis
    by (simp add: model_delete_def model_soft_delete_def)
next
  case False
  then have "is_deleted (fst (model_delete clk meta self w))"
    by (simp add: model_delete_active set_flags_simps)
  then have "model_delete clk meta (fst (model_delete clk meta self w)) (snd (model_delete clk meta self w)) =
             (fst (model_delete clk meta self w), snd (model_delete clk meta self w))"
    by (simp add: model_delete_def model_soft_delete_def)
  then show ?thesis by simp
qed

text \<open>Deleting the author of the library twice: two writes, both of the first call.\<close>

theorem delete_idempotent_witness:
  "model_delete clock (library_meta Manager)
     (fst (model_delete clock (library_meta Manager) author library))
     (snd (model_delete clock (library_meta Manager) author library)) =
   model_delete clock (library_meta Manager) author library \<and>
   length (writes (snd (model_delete clock (library_meta Manager) author library))) = 2 \<and>
   length (writes (snd (model_delete clock (library_meta Manager)
     (fst (model_delete clock (library_meta Manager) author library))
     (snd (model_delete clock (library_meta Manager) author library))))) = 2"
proof -
  have n: "length (writes (snd (model_delete clock (library_meta Manager) author library))) = 2"
    by code_simp
  from delete_idempotent [where clk = clock and meta = "library_meta Manager" and self = author
      and w = library] n
  show ?thesis by simp
qed

section \<open>Delete, then restore\<close>

text \<open>
  Claim C6. For every active entity, whose \<open>deleted_at\<close> is therefore null, \<^verbatim>\<open>delete()\<close>
  followed by \<^verbatim>\<open>restore()\<close> returns the entity's flags to their values before the
  delete: the instance is again what it was, \<open>is_deleted\<close> false and \<open>deleted_at\<close> null,
  the timestamp of the deletion being kept nowhere; and the entity's stored record shows
  the same fields.
\<close>

theorem delete_restore_round_trip:
  assumes "\<not> is_deleted self" "deleted_at self = None"
  shows "fst (model_restore meta (fst (model_delete clk meta self w))
                (snd (model_delete clk meta self w))) = self \<and>
         is_deleted (fst (model_delete clk meta self w)) \<and>
         deleted_at (fst (model_delete clk meta self w)) = Some (clk (tick w)) \<and>
         list_ex (same_record self)
           (db (snd (model_restore meta (fst (model_delete clk meta self w))
                       (snd (model_delete clk meta self w))))) \<and>
         (\<forall>r\<in>set (db (snd (model_restore meta (fst (model_delete clk meta self w))
                               (snd (model_delete clk meta self w))))).
            same_record self r \<longrightarrow> r = self)"
proof -
  let ?s = "set_flags True (Some (clk (tick w))) self"
  let ?w = "snd (model_delete clk meta self w)"
  let ?rels = "related_objects meta (model self)"
  let ?w1 = "save self ?w"
  have d: "fst (model_delete clk meta self w) = ?s"
    using assms(1) by (simp add: model_delete_active)
  have undo: "set_flags False None ?s = self"
    using assms by (simp add: set_flags_twice set_flags_default)
  have r: "model_restore meta ?s ?w = (self, cascade_restore meta self ?rels ?w1)"
    by (simp add: model_restore_def undo set_flags_simps)
  have c1: "fst (model_restore meta (fst (model_delete clk meta self w)) ?w) = self"
    by (simp add: d r)
  have c2: "is_deleted (fst (model_delete clk meta self w)) \<and>
            deleted_at (fst (model_delete clk meta self w)) = Some (clk (tick w))"
    by (simp add: d set_flags_simps)
  have "list_ex (same_record self) (db (cascade_restore meta self ?rels ?w1))"
    by (rule cascade_restore_stored) (rule save_stored)
  then have c3: "list_ex (same_record self)
      (db (snd (model_restore meta (fst (model_delete clk meta self w)) ?w)))"
    by (simp add: d r)
  have c4: "\<forall>r\<in>set (db (snd (model_restore meta (fst (model_delete clk meta self w)) ?w))).
              same_record self r \<longrightarrow> r = self"
  proof (intro ballI impI)
    fix x
    assume "x \<in> set (db (snd (model_restore meta (fst (model_delete clk meta self w)) ?w)))"
      and sx: "same_record self x"
    then have "x \<in> set (db (cascade_restore meta self ?rels ?w1))"
      by (simp add: d r)
    from list_all2_in_set2 [OF cascade_restore_rel [where meta = meta and self = self
          and rels = "?rels" and w = "?w1"] this]
    obtain x0 where x0: "x0 \<in> set (db ?w1)" "model x = model x0" "pk x = pk x0"
      "x = x0 \<or> x = set_flags False None x0"
      by auto
    from sx x0(2,3) have "same_record self x0"
      by (simp add: same_record_def)
    with save_set [OF x0(1)] have "x0 = self"
      by simp
    with x0(4) assms show "x = self"
      by (auto simp: set_flags_default)
  qed
  from c1 c2 c3 c4 show ?thesis by blast
qed

text \<open>The author of the library, deleted at time 100 and restored.\<close>

theorem delete_restore_round_trip_witness:
  "\<not> is_deleted author \<and> deleted_at author = None \<and>
   fst (model_restore (library_meta Manager)
          (fst (model_delete clock (library_meta Manager) author library))
          (snd (model_delete clock (library_meta Manager) author library))) = author \<and>
   is_deleted (fst (model_delete clock (library_meta Manager) author library)) \<and>
   deleted_at (fst (model_delete clock (library_meta Manager) author library)) = Some 100 \<and>
   db (snd (model_restore (library_meta Manager)
              (fst (model_delete clock (library_meta Manager) author library))
              (snd (model_delete clock (library_meta Manager) author library)))) ! 0 = author"
proof -
  have h: "\<not> is_deleted author" "deleted_at author = None"
    by code_simp+
  note t = delete_restore_round_trip [OF h, where clk = clock and meta = "library_meta Manager"
      and w = library]
  have k: "clock (tick library) = 100"
    by code_simp
  have s: "same_record author
      (db (snd (model_restore (library_meta Manager)
              (fst (model_delete clock (library_meta Manager) author library))
              (snd (model_delete clock (library_meta Manager) author library)))) ! 0)"
    by code_simp
  have i: "db (snd (model_restore (library_meta Manager)
              (fst (model_delete clock (library_meta Manager) author library))
              (snd (model_delete clock (library_meta Manager) author library)))) ! 0
           \<in> set (db (snd (model_restore (library_meta Manager)
              (fst (model_delete clock (library_meta Manager) author library))
              (snd (model_delete clock (library_meta Manager) author library)))))"
    by code_simp
  from t s i have z: "db (snd (model_restore (library_meta Manager)
              (fst (model_delete clock (library_meta Manager) author library))
              (snd (model_delete clock (library_meta Manager) author library)))) ! 0 = author"
    by blast
  from t h k z show ?thesis by simp
qed

section \<open>Restore of an active entity\<close>

text \<open>
  Claim C7. For every entity that is already active, \<^verbatim>\<open>restore()\<close> is a no-op: the
  instance and the world come back unchanged, so both flag fields keep their values and
  the write log gains no entry, neither a save of the entity nor a bulk update of a
  related collection.
\<close>

theorem restore_active_noop:
  assumes "\<not> is_deleted self"
  shows "model_restore meta self w = (self, w)"
  using assms by (simp add: model_restore_def)

theorem restore_active_noop_witness:
  "\<not> is_deleted author \<and>
   model_restore (library_meta SoftDeleteManager) author library = (author, library) \<and>
   writes (snd (model_restore (library_meta SoftDeleteManager) author library)) = []"
proof -
  have h: "\<not> is_deleted author"
    by code_simp
  have e: "writes library = []"
    by code_simp
  from restore_active_noop [OF h, where meta = "library_meta SoftDeleteManager" and w = library] h e
  show ?thesis by simp
qed

section \<open>The queryset's delete\<close>

text \<open>
  Claim C8. For every collection, the queryset's \<^verbatim>\<open>delete()\<close> returns the number of its
  members and sets \<open>is_deleted\<close> to true and \<open>deleted_at\<close> to the one current time on every
  member, other fields untouched. It does not cascade: every stored record outside the
  collection, related to a member or not, is left as it was, and the only write issued
  is the one bulk update.
\<close>

theorem queryset_delete_is_shallow:
  "fst (qs_delete clk qs w) = length (rows (db w) qs) \<and>
   length (db (snd (qs_delete clk qs w))) = length (db w) \<and>
   (\<forall>i<length (db w).
      db (snd (qs_delete clk qs w)) ! i =
        (if matches qs (db w ! i)
         then (db w ! i)\<lparr>is_deleted := True, deleted_at := Some (clk (tick w))\<rparr>
         else db w ! i)) \<and>
   writes (snd (qs_delete clk qs w)) = writes w @ [Update qs True (Some (clk (tick w)))]"
  by (simp add: qs_delete_def qs_soft_delete_def now_def qs_update_def set_flags_def)

text \<open>
  Deleting the books of author 1 in bulk: two members; the chapter of the first book is
  not a member and stays active.
\<close>

theorem queryset_delete_is_shallow_witness:
  "fst (qs_delete clock (qs_filter (Fk_eq ''author'' 1) (get_all ''Book'')) library) = 2 \<and>
   db (snd (qs_delete clock (qs_filter (Fk_eq ''author'' 1) (get_all ''Book'')) library)) ! 1 =
     (library_db ! 1)\<lparr>is_deleted := True, deleted_at := Some 100\<rparr> \<and>
   db (snd (qs_delete clock (qs_filter (Fk_eq ''author'' 1) (get_all ''Book'')) library)) ! 5 =
     library_db ! 5 \<and>
   \<not> is_deleted (library_db ! 5) \<and>
   length (writes (snd (qs_delete clock (qs_filter (Fk_eq ''author'' 1) (get_all ''Book'')) library))) = 1"
proof -
  note t = queryset_delete_is_shallow [where clk = clock and w = library
      and qs = "qs_filter (Fk_eq ''author'' 1) (get_all ''Book'')"]
  have k: "db library = library_db" "length library_db = 6" "clock (tick library) = 100"
    "writes library = []"
    "length (rows library_db (qs_filter (Fk_eq ''author'' 1) (get_all ''Book''))) = 2"
    "matches (qs_filter (Fk_eq ''author'' 1) (get_all ''Book'')) (library_db ! 1)"
    "\<not> matches (qs_filter (Fk_eq ''author'' 1) (get_all ''Book'')) (library_db ! 5)"
    "\<not> is_deleted (library_db ! 5)"
    by code_simp+
  from t have "fst (qs_delete clock (qs_filter (Fk_eq ''author'' 1) (get_all ''Book'')) library) = 2"
    by (simp add: k del: One_nat_def)
  moreover from t have "db (snd (qs_delete clock (qs_filter (Fk_eq ''author'' 1) (get_all ''Book'')) library)) ! 1 =
     (library_db ! 1)\<lparr>is_deleted := True, deleted_at := Some 100\<rparr>"
    by (simp add: k del: One_nat_def)
  moreover from t have "db (snd (qs_delete clock (qs_filter (Fk_eq ''author'' 1) (get_all ''Book'')) library)) ! 5 =
     library_db ! 5"
    by (simp add: k del: One_nat_def)
  moreover from t have "length (writes (snd (qs_delete clock (qs_filter (Fk_eq ''author'' 1) (get_all ''Book'')) library))) = 1"
    by (simp add: k del: One_nat_def)
  ultimately show ?thesis using k(8) by blast
qed

section \<open>Hard delete\<close>

text \<open>
  Claim C9. For every entity, \<^verbatim>\<open>hard_delete()\<close> is the persistence layer's physical delete
  of that one record and nothing more: it fails exactly when the layer refuses, and when
  it returns it has read no clock and issued no write but that physical delete, so it
  sets no flag and runs no cascade of the mixin; what becomes of the other records is
  the layer's doing. Afterwards no accessor returns the entity: not the default one, not
  \<^verbatim>\<open>get_all()\<close>, not \<^verbatim>\<open>deleted_only()\<close>, not the plain manager \<^verbatim>\<open>objects_default\<close>.
\<close>

theorem hard_delete_removes_record:
  "model_hard_delete enforce self w = base_model_delete enforce self w \<and>
   (model_hard_delete enforce self w = None) = (enforce self (db w) = None) \<and>
   (\<forall>w'. model_hard_delete enforce self w = Some w' \<longrightarrow>
      tick w' = tick w \<and>
      writes w' = writes w @ [Physical_delete (model self) (pk self)] \<and>
      \<not> list_ex (same_record self) (rows (db w') (get_queryset SoftDeleteManager (model self))) \<and>
      \<not> list_ex (same_record self) (rows (db w') (get_all (model self))) \<and>
      \<not> list_ex (same_record self) (rows (db w') (deleted_only (model self))) \<and>
      \<not> list_ex (same_record self) (rows (db w') (get_queryset Manager (model self))) \<and>
      \<not> list_ex (same_record self) (db w'))"
proof (intro conjI allI impI)
  show "model_hard_delete enforce self w = base_model_delete enforce self w"
    by (simp add: model_hard_delete_def)
next
  show "(model_hard_delete enforce self w = None) = (enforce self (db w) = None)"
    by (simp add: model_hard_delete_def base_model_delete_def split: option.splits)
next
  fix w'
  assume "model_hard_delete enforce self w = Some w'"
  then obtain d where d: "enforce self (db w) = Some d"
    and w': "w' = w\<lparr>db := filter (\<lambda>r. \<not> same_record self r) d,
                     writes := writes w @ [Physical_delete (model self) (pk self)]\<rparr>"
    by (auto simp: model_hard_delete_def base_model_delete_def split: option.splits)
  show "tick w' = tick w"
    by (simp add: w')
  show "writes w' = writes w @ [Physical_delete (model self) (pk self)]"
    by (simp add: w')
  show "\<not> list_ex (same_record self) (rows (db w') (get_queryset SoftDeleteManager (model self)))"
    by (auto simp: w' list_ex_iff rows_def)
  show "\<not> list_ex (same_record self) (rows (db w') (get_all (model self)))"
    by (auto simp: w' list_ex_iff rows_def)
  show "\<not> list_ex (same_record self) (rows (db w') (deleted_only (model self)))"
    by (auto simp: w' list_ex_iff rows_def)
  show "\<not> list_ex (same_record self) (rows (db w') (get_queryset Manager (model self)))"
    by (auto simp: w' list_ex_iff rows_def)
  show "\<not> list_ex (same_record self) (db w')"
    by (auto simp: w' list_ex_iff)
qed

text \<open>
  The author of the library, removed for good under the cascading referential actions
  of the library: the delete succeeds, the author was listed before and is not
  afterwards, and of the stored records only the book of the other author is left.
\<close>

theorem hard_delete_removes_record_witness:
  "model_hard_delete library_cascade author library =
     Some \<lparr>db = [library_db ! 3], tick = 0, writes = [Physical_delete ''Author'' 1]\<rparr> \<and>
   list_ex (same_record author) (rows (db library) (get_all (model author))) \<and>
   \<not> list_ex (same_record author) (rows [library_db ! 3] (get_all (model author))) \<and>
   \<not> list_ex (same_record author)
       (rows [library_db ! 3] (get_queryset SoftDeleteManager (model author))) \<and>
   \<not> list_ex (same_record author) (rows [library_db ! 3] (deleted_only (model author)))"
proof -
  have e: "model_hard_delete library_cascade author library =
      Some \<lparr>db = [library_db ! 3], tick = 0, writes = [Physical_delete ''Author'' 1]\<rparr>"
    by code_simp
  have b: "list_ex (same_record author) (rows (db library) (get_all (model author)))"
    by code_simp
  note t = hard_delete_removes_record [where enforce = library_cascade and self = author
      and w = library, THEN conjunct2, THEN conjunct2, rule_format, OF e]
  from t have a: "\<not> list_ex (same_record author) (rows [library_db ! 3] (get_all (model author)))"
    "\<not> list_ex (same_record author)
       (rows [library_db ! 3] (get_queryset SoftDeleteManager (model author)))"
    "\<not> list_ex (same_record author) (rows [library_db ! 3] (deleted_only (model author)))"
    by simp_all
  from e b a show ?thesis by blast
qed

section \<open>The cascade and records that were already deleted\<close>

text \<open>
  Claim C10, as amended. Let the per-entity \<^verbatim>\<open>delete()\<close> of an active entity cascade to a
  relationship. When the reverse accessor is built from a plain \<^verbatim>\<open>Manager\<close>, the bulk
  update reaches every record that references the entity, whether or not it was already
  soft-deleted: each record that referenced the entity before the call is afterwards
  what it was with \<open>is_deleted\<close> true and \<open>deleted_at\<close> set to a timestamp that \<^verbatim>\<open>now()\<close>
  returned during the cascade of this call, so an earlier deletion time is lost. When
  the accessor is built from a \<^verbatim>\<open>SoftDeleteManager\<close>, \<^verbatim>\<open>all()\<close> is the active subset, and a
  related record that was already soft-deleted is left exactly as it was, its
  \<open>deleted_at\<close> included.
\<close>

theorem cascade_overwrites_deleted_at:
  assumes "\<not> is_deleted self" "rel \<in> set (related_objects meta (model self))"
    "cascades meta rel"
  shows "(default_manager meta (related_model rel) = Manager \<longrightarrow>
            (\<forall>r\<in>set (db (snd (model_delete clk meta self w))).
               references self rel r \<longrightarrow>
               stamped clk (Suc (tick w)) (tick (snd (model_delete clk meta self w))) r) \<and>
            (\<forall>i<length (db w).
               references self rel (db w ! i) \<and> \<not> same_record self (db w ! i) \<longrightarrow>
               list_ex (\<lambda>j. db (snd (model_delete clk meta self w)) ! i =
                             (db w ! i)\<lparr>is_deleted := True, deleted_at := Some (clk j)\<rparr>)
                 [Suc (tick w)..<tick (snd (model_delete clk meta self w))])) \<and>
         (default_manager meta (related_model rel) = SoftDeleteManager \<longrightarrow>
            (\<forall>i<length (db w).
               references self rel (db w ! i) \<and> is_deleted (db w ! i) \<and>
               \<not> same_record self (db w ! i) \<longrightarrow>
               db (snd (model_delete clk meta self w)) ! i = db w ! i))"
proof (intro conjI impI ballI allI)
  fix r
  let ?s = "set_flags True (Some (clk (tick w))) self"
  let ?w1 = "save ?s (w\<lparr>tick := Suc (tick w)\<rparr>)"
  assume plain: "default_manager meta (related_model rel) = Manager"
  assume "r \<in> set (db (snd (model_delete clk meta self w)))" "references self rel r"
  with assms(1) have "r \<in> set (db (cascade_delete clk meta ?s (related_objects meta (model self)) ?w1))"
    "references ?s rel r"
    by (simp_all add: model_delete_active references_def set_flags_simps)
  from cascade_delete_stamps_all [OF assms(2,3) plain this]
  show "stamped clk (Suc (tick w)) (tick (snd (model_delete clk meta self w))) r"
    using assms(1) by (simp add: model_delete_active save_def)
next
  fix i
  let ?s = "set_flags True (Some (clk (tick w))) self"
  let ?w1 = "save ?s (w\<lparr>tick := Suc (tick w)\<rparr>)"
  assume plain: "default_manager meta (related_model rel) = Manager"
  assume i: "i < length (db w)"
    and r: "references self rel (db w ! i) \<and> \<not> same_record self (db w ! i)"
  have sr: "same_record ?s = same_record self"
    by (rule ext) (simp add: same_record_def set_flags_simps)
  from i have i1: "i < length (db ?w1)"
    using save_length [where w = "w\<lparr>tick := Suc (tick w)\<rparr>" and s = "?s"] by simp
  from i r have s1: "db ?w1 ! i = db w ! i"
    using save_nth [where w = "w\<lparr>tick := Suc (tick w)\<rparr>" and s = "?s" and i = i]
    by (simp add: sr)
  have tk: "tick ?w1 = Suc (tick w)"
    by (simp add: save_def)
  from s1 r have "references ?s rel (db ?w1 ! i)"
    by (simp add: references_def set_flags_simps)
  from cascade_delete_restamps_nth [OF assms(2,3) disjI1 [OF plain] i1 this, where clk = clk]
  have "list_ex (\<lambda>j. db (cascade_delete clk meta ?s (related_objects meta (model self)) ?w1) ! i =
                      set_flags True (Some (clk j)) (db w ! i))
          [Suc (tick w)..<tick (cascade_delete clk meta ?s (related_objects meta (model self)) ?w1)]"
    by (simp only: s1 tk)
  then show "list_ex (\<lambda>j. db (snd (model_delete clk meta self w)) ! i =
                      (db w ! i)\<lparr>is_deleted := True, deleted_at := Some (clk j)\<rparr>)
          [Suc (tick w)..<tick (snd (model_delete clk meta self w))]"
    by (simp only: model_delete_active [OF assms(1)] snd_conv set_flags_def)
next
  fix i
  let ?s = "set_flags True (Some (clk (tick w))) self"
  let ?w1 = "save ?s (w\<lparr>tick := Suc (tick w)\<rparr>)"
  assume soft: "default_manager meta (related_model rel) = SoftDeleteManager"
  assume i: "i < length (db w)"
    and r: "references self rel (db w ! i) \<and> is_deleted (db w ! i) \<and> \<not> same_record self (db w ! i)"
  have sr: "same_record ?s = same_record self"
    by (rule ext) (simp add: same_record_def set_flags_simps)
  from i have i1: "i < length (db ?w1)"
    using save_length [where w = "w\<lparr>tick := Suc (tick w)\<rparr>" and s = "?s"] by simp
  from i r have s1: "db ?w1 ! i = db w ! i"
    using save_nth [where w = "w\<lparr>tick := Suc (tick w)\<rparr>" and s = "?s" and i = i]
    by (simp add: sr)
  from r soft have "default_manager meta (model (db w ! i)) = SoftDeleteManager"
    by (simp add: references_def)
  with r s1 list_all2_nthD [OF cascade_delete_keeps_deleted [where meta = meta and self = "?s"
        and rels = "related_objects meta (model self)" and w = "?w1" and clk = clk] i1]
  show "db (snd (model_delete clk meta self w)) ! i = db w ! i"
    using assms(1) by (simp add: model_delete_active)
qed

text \<open>
  In the library the second book was deleted at time 5. With plain default managers,
  deleting the author stamps it, like the first book, with time 101. With
  \<^verbatim>\<open>SoftDeleteManager\<close> as default manager it is left as it was.
\<close>

theorem cascade_overwrites_deleted_at_witness:
  "\<not> is_deleted author \<and>
   List.member (related_objects (library_meta Manager) (model author)) book_rel \<and>
   cascades (library_meta Manager) book_rel \<and>
   default_manager (library_meta Manager) (related_model book_rel) = Manager \<and>
   default_manager (library_meta SoftDeleteManager) (related_model book_rel) = SoftDeleteManager \<and>
   references author book_rel (library_db ! 2) \<and>
   is_deleted (library_db ! 2) \<and> deleted_at (library_db ! 2) = Some 5 \<and>
   stamped clock 1 2 (db (snd (model_delete clock (library_meta Manager) author library)) ! 2) \<and>
   db (snd (model_delete clock (library_meta Manager) author library)) ! 2 =
     (library_db ! 2)\<lparr>is_deleted := True, deleted_at := Some 101\<rparr> \<and>
   db (snd (model_delete clock (library_meta SoftDeleteManager) author library)) ! 2 = library_db ! 2"
proof -
  have h: "\<not> is_deleted author"
    "book_rel \<in> set (related_objects (library_meta Manager) (model author))"
    "cascades (library_meta Manager) book_rel"
    by code_simp+
  have hs: "book_rel \<in> set (related_objects (library_meta SoftDeleteManager) (model author))"
    "cascades (library_meta SoftDeleteManager) book_rel"
    by code_simp+
  have p: "default_manager (library_meta Manager) (related_model book_rel) = Manager"
    by code_simp
  have q: "default_manager (library_meta SoftDeleteManager) (related_model book_rel) = SoftDeleteManager"
    by code_simp
  have m: "List.member (related_objects (library_meta Manager) (model author)) book_rel"
    by code_simp
  have b: "is_deleted (library_db ! 2)" "deleted_at (library_db ! 2) = Some 5"
    "references author book_rel (library_db ! 2)"
    by code_simp+
  have i2: "(2::nat) < length (db library)"
    by code_simp
  have pre: "references author book_rel (db library ! 2) \<and> \<not> same_record author (db library ! 2)"
    by code_simp
  have pre_soft: "references author book_rel (db library ! 2) \<and> is_deleted (db library ! 2) \<and>
      \<not> same_record author (db library ! 2)"
    by code_simp
  have k: "tick library = 0" "tick (snd (model_delete clock (library_meta Manager) author library)) = 2"
    "db library ! 2 = library_db ! 2"
    by code_simp+
  have i: "db (snd (model_delete clock (library_meta Manager) author library)) ! 2
             \<in> set (db (snd (model_delete clock (library_meta Manager) author library)))"
    by code_simp
  have r: "references author book_rel (db (snd (model_delete clock (library_meta Manager) author library)) ! 2)"
    by code_simp
  note plain = cascade_overwrites_deleted_at [OF h, where clk = clock and w = library,
      THEN conjunct1, rule_format, OF p]
  note soft = cascade_overwrites_deleted_at [OF h(1) hs, where clk = clock and w = library,
      THEN conjunct2, rule_format, OF q i2 pre_soft]
  from plain [THEN conjunct1, rule_format, OF i r]
  have s: "stamped clock 1 2 (db (snd (model_delete clock (library_meta Manager) author library)) ! 2)"
    by (simp add: k)
  from plain [THEN conjunct2, rule_format, OF i2 pre]
  obtain j where j: "1 \<le> j" "j < 2"
    "db (snd (model_delete clock (library_meta Manager) author library)) ! 2 =
       (db library ! 2)\<lparr>is_deleted := True, deleted_at := Some (clock j)\<rparr>"
    by (auto simp: k(1,2) list_ex_iff)
  from j(1,2) have "j = 1" by arith
  with j(3) have d: "db (snd (model_delete clock (library_meta Manager) author library)) ! 2 =
       (library_db ! 2)\<lparr>is_deleted := True, deleted_at := Some 101\<rparr>"
    by (simp add: clock_def k(3))
  from soft have u: "db (snd (model_delete clock (library_meta SoftDeleteManager) author library)) ! 2 =
      library_db ! 2"
    by (simp only: k(3))
  from h(1) m h(3) p q b(3,1,2) s d u show ?thesis by blast
qed

text \<open>
  The claim as written, for every cascading relationship, fails when the related model's
  default manager is a \<^verbatim>\<open>SoftDeleteManager\<close>: \<^verbatim>\<open>all()\<close> is then its \<^verbatim>\<open>get_queryset()\<close>, the
  active records only. The cascade runs (the first book is stamped 101) and the book
  deleted at time 5 keeps that time.
\<close>

theorem cascade_keeps_deleted_at_counterexample:
  "\<not> is_deleted author \<and>
   List.member (related_objects (library_meta SoftDeleteManager) (model author)) book_rel \<and>
   cascades (library_meta SoftDeleteManager) book_rel \<and>
   references author book_rel (library_db ! 1) \<and>
   references author book_rel (library_db ! 2) \<and>
   is_deleted (library_db ! 2) \<and> deleted_at (library_db ! 2) = Some 5 \<and>
   deleted_at (db (snd (model_delete clock (library_meta SoftDeleteManager) author library)) ! 1) = Some 101 \<and>
   db (snd (model_delete clock (library_meta SoftDeleteManager) author library)) ! 2 = library_db ! 2"
  by code_simp

end
